theory Spec2Isabelle
  imports Main
begin

section \<open>The jail cell of geth/jail/cell.go\<close>

text \<open>
  A Cell owns one JavaScript VM, one event loop, a cancel function and the goroutine that
  runs the loop. The packages \<^verbatim>\<open>vm\<close>, \<^verbatim>\<open>loop\<close>, \<^verbatim>\<open>looptask\<close>, \<^verbatim>\<open>timers\<close>
  and \<^verbatim>\<open>fetch\<close> are imported by cell.go and are not part of the sources at hand: what
  cell.go needs of them is either a parameter of the definitions below or a definition
  marked as modelled from the specification.
\<close>

subsection \<open>Go errors\<close>

text \<open>
  An \<^verbatim>\<open>error\<close> is an interface value: \<^verbatim>\<open>nil\<close>, the package-level sentinel
  \<^verbatim>\<open>context.Canceled\<close>, or a pointer made by \<^verbatim>\<open>errors.New\<close>. Go compares two such
  pointers by address, not by message, so an error made by \<^verbatim>\<open>errors.New\<close> carries
  the address it was allocated at. \<^verbatim>\<open>nil\<close> is \<open>None\<close>.
\<close>

datatype go_error = Canceled | ErrorString nat string

type_synonym error = "go_error option"

text \<open>
  What a caller of the cell can observe of the rest of the process: the clock, in
  nanoseconds as \<^verbatim>\<open>time.Duration\<close> counts, and the next address the allocator hands out.
\<close>

record world =
  now :: nat
  next_addr :: nat

definition errors_New :: "string \<Rightarrow> world \<Rightarrow> error \<times> world" where
  "errors_New msg w = (Some (ErrorString (next_addr w) msg), w\<lparr>next_addr := Suc (next_addr w)\<rparr>)"

text \<open>\<^verbatim>\<open>time.Second\<close>, in nanoseconds.\<close>

definition second :: nat where
  "second = 1000000000"

subsection \<open>The interpreter and the loop\<close>

type_synonym js_value = string

text \<open>
  Modelled from the spec: the interpreter (package \<^verbatim>\<open>vm\<close>, not in the sources). The
  spec describes it as a single mutable environment of globals into which host bindings
  register functions; a call of a script function returns a value or a script exception
  (section 6, "call function with arguments, synchronously, returning
  value-or-exception").
\<close>

record vm =
  globals :: "string list"

datatype call_result = Returned js_value | Threw js_value

type_synonym otto_fn = "js_value list \<Rightarrow> vm \<Rightarrow> call_result \<times> vm"

definition vm_New :: vm where
  "vm_New = \<lparr>globals = []\<rparr>"

text \<open>
  Modelled from the spec: the Call task of package \<^verbatim>\<open>looptask\<close> and the Loop of package
  \<^verbatim>\<open>loop\<close> (neither in the sources). A task has an identity unique within its loop, and a
  body, the function with its captured arguments. The loop owns the pending tasks in the
  order they were added; \<open>finished\<close> lists the ids of the tasks its thread has executed,
  oldest first.
\<close>

record task =
  task_id :: nat
  task_fn :: otto_fn
  task_args :: "js_value list"

record loop =
  next_id :: nat
  tasks :: "task list"
  finished :: "nat list"

definition loop_New :: "vm \<Rightarrow> loop" where
  "loop_New v = \<lparr>next_id = 0, tasks = [], finished = []\<rparr>"

definition NewCallTask :: "otto_fn \<Rightarrow> js_value list \<Rightarrow> task" where
  "NewCallTask fn args = \<lparr>task_id = 0, task_fn = fn, task_args = args\<rparr>"

text \<open>
  Modelled from the spec: \<^verbatim>\<open>Loop.Add\<close> "enqueues a Task in pending state" and gives it
  its id; it never blocks. The task is a pointer in Go, so the caller's task carries the
  id afterwards.
\<close>

definition loop_Add :: "task \<Rightarrow> loop \<Rightarrow> task \<times> loop" where
  "loop_Add t lo =
     (let t' = t\<lparr>task_id := next_id lo\<rparr>
      in (t', lo\<lparr>next_id := Suc (next_id lo), tasks := tasks lo @ [t']\<rparr>))"

text \<open>
  Modelled from the spec: \<^verbatim>\<open>Loop.Ready\<close> "marks a Task as immediately runnable and
  blocks the calling thread until that specific Task has finished executing on the Loop's
  thread"; the task's result or script exception is delivered to whoever awaited it, and
  an executed task is destroyed. The first argument says whether the loop's thread is
  still picking tasks (\<^verbatim>\<open>Run\<close> "stops picking new Tasks" once cancellation is tripped).
  If it is not, the task never executes and the caller stays blocked: the result is
  \<open>None\<close> and the task stays pending.
\<close>

definition loop_Ready :: "bool \<Rightarrow> task \<Rightarrow> loop \<Rightarrow> vm \<Rightarrow> call_result option \<times> loop \<times> vm" where
  "loop_Ready picking t lo v =
     (if picking then
        (case task_fn t (task_args t) v of
           (res, v') \<Rightarrow>
             (Some res,
              lo\<lparr>tasks := filter (\<lambda>u. task_id u \<noteq> task_id t) (tasks lo),
                 finished := finished lo @ [task_id t]\<rparr>,
              v'))
      else (None, lo, v))"

subsection \<open>The cell\<close>

text \<open>
  The struct \<^verbatim>\<open>Cell\<close>. The field \<^verbatim>\<open>cancel\<close> is the function that trips the context made
  in \<^verbatim>\<open>NewCell\<close>; \<open>cancelled\<close> is the state of that context. The channel
  \<^verbatim>\<open>loopStopped\<close> carries no values and is only ever closed, so it is the flag "closed".
  \<open>thread\<close> is the program point of the goroutine \<^verbatim>\<open>NewCell\<close> starts, and
  \<open>loopErr_assigned\<close> counts the executions of the assignment to \<^verbatim>\<open>cell.loopErr\<close>.
\<close>

datatype loop_thread =
    Running
  | RunReturned error
  | Closing
  | Exited

record cell =
  VM :: vm
  cell_id :: string
  cancelled :: bool
  loop :: loop
  loopStopped :: bool
  loopErr :: error
  thread :: loop_thread
  loopErr_assigned :: nat

text \<open>
  \<^verbatim>\<open>registerVMHandlers\<close>. \<^verbatim>\<open>timers.Define\<close> and \<^verbatim>\<open>fetch.Define\<close> are not in the
  sources and are parameters: each takes the VM and the loop, may change the VM, and
  returns an error or \<^verbatim>\<open>nil\<close>.
\<close>

type_synonym host_binding = "vm \<Rightarrow> loop \<Rightarrow> error \<times> vm"

definition registerVMHandlers :: "host_binding \<Rightarrow> host_binding \<Rightarrow> vm \<Rightarrow> loop \<Rightarrow> error \<times> vm" where
  "registerVMHandlers timers_Define fetch_Define v lo =
     (case timers_Define v lo of
        (Some err, v1) \<Rightarrow> (Some err, v1)
      | (None, v1) \<Rightarrow>
          (case fetch_Define v1 lo of
             (Some err, v2) \<Rightarrow> (Some err, v2)
           | (None, v2) \<Rightarrow> (None, v2)))"

text \<open>
  \<^verbatim>\<open>NewCell\<close>. The call of \<^verbatim>\<open>registerVMHandlers\<close> is a statement: its result is
  dropped. The goroutine is started and \<^verbatim>\<open>NewCell\<close> returns the cell without waiting
  for it.
\<close>

definition NewCell :: "host_binding \<Rightarrow> host_binding \<Rightarrow> string \<Rightarrow> cell" where
  "NewCell timers_Define fetch_Define ident =
     (let v = vm_New;
          lo = loop_New v;
          (_, v') = registerVMHandlers timers_Define fetch_Define v lo
      in \<lparr>VM = v', cell_id = ident, cancelled = False, loop = lo,
          loopStopped = False, loopErr = None, thread = Running, loopErr_assigned = 0\<rparr>)"

text \<open>
  The goroutine of \<^verbatim>\<open>NewCell\<close>, one statement at a time. \<open>r\<close> is what \<^verbatim>\<open>lo.Run(ctx)\<close>
  returns when it returns (\<^verbatim>\<open>Run\<close> is not in the sources).
\<close>

definition loop_goroutine_step :: "error \<Rightarrow> cell \<Rightarrow> cell" where
  "loop_goroutine_step r c =
     (case thread c of
        Running \<Rightarrow> c\<lparr>thread := RunReturned r\<rparr>
      | RunReturned err \<Rightarrow>
          (if err \<noteq> Some Canceled
           then c\<lparr>loopErr := err, thread := Closing,
                  loopErr_assigned := Suc (loopErr_assigned c)\<rparr>
           else c\<lparr>thread := Closing\<rparr>)
      | Closing \<Rightarrow> c\<lparr>loopStopped := True, thread := Exited\<rparr>
      | Exited \<Rightarrow> c)"

text \<open>\<^verbatim>\<open>c.cancel()\<close>: trips the context.\<close>

definition cancel :: "cell \<Rightarrow> cell" where
  "cancel c = c\<lparr>cancelled := True\<rparr>"

text \<open>
  The \<^verbatim>\<open>select\<close> of \<^verbatim>\<open>Stop\<close>. The caller is blocked while the goroutine runs, so the
  wait is driven by a schedule: the delays, in nanoseconds, after which the goroutine
  executes its next statements. \<open>remaining\<close> is the time left on the timer of
  \<^verbatim>\<open>time.After\<close>. The receive from \<^verbatim>\<open>loopStopped\<close> can proceed as soon as the channel
  is closed; the timer's case can proceed when the timer has run out. A statement of
  the goroutine that falls on the very instant the timer runs out comes too late: the
  timer's case is taken. An empty schedule is a goroutine that executes nothing more
  while the caller waits (\<^verbatim>\<open>Run\<close> busy in a long task, say). The result says
  which case was taken (\<open>True\<close> for the receive from \<^verbatim>\<open>loopStopped\<close>), the cell then,
  and the time waited.
\<close>

fun select_wait :: "error \<Rightarrow> nat \<Rightarrow> nat list \<Rightarrow> cell \<Rightarrow> bool \<times> cell \<times> nat" where
  "select_wait r remaining [] c =
     (if loopStopped c then (True, c, 0) else (False, c, remaining))"
| "select_wait r remaining (d # ds) c =
     (if loopStopped c then (True, c, 0)
      else if d < remaining then
        (case select_wait r (remaining - d) ds (loop_goroutine_step r c) of
           (signalled, c', t) \<Rightarrow> (signalled, c', d + t))
      else (False, c, remaining))"

text \<open>\<^verbatim>\<open>Stop\<close>: the error returned, the cell and the world when it returns.\<close>

definition Stop :: "error \<Rightarrow> nat list \<Rightarrow> cell \<Rightarrow> world \<Rightarrow> error \<times> cell \<times> world" where
  "Stop r sched c w =
     (let c1 = cancel c in
      case select_wait r second sched c1 of
        (signalled, c2, t) \<Rightarrow>
          (if signalled then (loopErr c2, c2, w\<lparr>now := now w + t\<rparr>)
           else (case errors_New ''stopping the cell timed out'' (w\<lparr>now := now w + t\<rparr>) of
                   (e, w') \<Rightarrow> (e, c2, w'))))"

text \<open>
  \<^verbatim>\<open>CallAsync\<close>. The Go function has no result, so the model returns whether the call
  returned at all (\<open>Some ()\<close>) or stays blocked in \<^verbatim>\<open>Ready\<close> (\<open>None\<close>), and the cell.
  What \<^verbatim>\<open>Ready\<close> delivers is dropped.
\<close>

definition loop_picking :: "cell \<Rightarrow> bool" where
  "loop_picking c = (thread c = Running \<and> \<not> cancelled c)"

definition CallAsync :: "cell \<Rightarrow> otto_fn \<Rightarrow> js_value list \<Rightarrow> unit option \<times> cell" where
  "CallAsync c fn args =
     (let task = NewCallTask fn args;
          (task', lo1) = loop_Add task (loop c)
      in case loop_Ready (loop_picking c) task' lo1 (VM c) of
           (None, lo2, v) \<Rightarrow> (None, c\<lparr>VM := v, loop := lo2\<rparr>)
         | (Some res, lo2, v) \<Rightarrow> (Some (), c\<lparr>VM := v, loop := lo2\<rparr>))"

subsection \<open>Histories of a cell\<close>

text \<open>
  What can happen to a cell after \<^verbatim>\<open>NewCell\<close>: its goroutine executes its next
  statement, some thread calls \<^verbatim>\<open>Stop\<close> (with the schedule the goroutine follows while
  that caller waits), some thread calls \<^verbatim>\<open>CallAsync\<close>, or time passes. A history is a
  list of such actions; \<open>cell_after\<close> runs it.
\<close>

datatype action =
    GoroutineStep
  | StopCall "nat list"
  | Call otto_fn "js_value list"
  | Sleep nat

fun do_action :: "error \<Rightarrow> action \<Rightarrow> cell \<times> world \<Rightarrow> cell \<times> world" where
  "do_action r GoroutineStep (c, w) = (loop_goroutine_step r c, w)"
| "do_action r (StopCall sched) (c, w) = snd (Stop r sched c w)"
| "do_action r (Call fn args) (c, w) = (snd (CallAsync c fn args), w)"
| "do_action r (Sleep d) (c, w) = (c, w\<lparr>now := now w + d\<rparr>)"

fun cell_after :: "error \<Rightarrow> action list \<Rightarrow> cell \<times> world \<Rightarrow> cell \<times> world" where
  "cell_after r [] cw = cw"
| "cell_after r (a # as) cw = cell_after r as (do_action r a cw)"

text \<open>
  The value the goroutine leaves in \<^verbatim>\<open>loopErr\<close> when \<^verbatim>\<open>Run\<close> returns \<open>r\<close>, and the
  states the goroutine passes through, by program point.
\<close>

definition terminal_error :: "error \<Rightarrow> error" where
  "terminal_error r = (if r = Some Canceled then None else r)"

definition goroutine_inv :: "error \<Rightarrow> cell \<Rightarrow> bool" where
  "goroutine_inv r c =
     (case thread c of
        Running \<Rightarrow> loopErr c = None \<and> \<not> loopStopped c \<and> loopErr_assigned c = 0
      | RunReturned err \<Rightarrow>
          err = r \<and> loopErr c = None \<and> \<not> loopStopped c \<and> loopErr_assigned c = 0
      | Closing \<Rightarrow>
          loopErr c = terminal_error r \<and> \<not> loopStopped c \<and> loopErr_assigned c \<le> 1
      | Exited \<Rightarrow>
          loopErr c = terminal_error r \<and> loopStopped c \<and> loopErr_assigned c \<le> 1)"


text \<open>Every task the loop has seen, pending or finished, has an id below the next one.\<close>

definition loop_wf :: "loop \<Rightarrow> bool" where
  "loop_wf lo =
     (list_all (\<lambda>i. i < next_id lo) (finished lo)
      \<and> list_all (\<lambda>t. task_id t < next_id lo) (tasks lo))"

text \<open>What every action of a history preserves.\<close>

definition cell_inv :: "error \<Rightarrow> cell \<Rightarrow> bool" where
  "cell_inv r c = (goroutine_inv r c \<and> loop_wf (loop c))"

subsection \<open>Sample collaborators\<close>

text \<open>
  Host bindings and script functions to run the definitions on. The timer bindings
  install \<^verbatim>\<open>setTimeout\<close>, \<^verbatim>\<open>setInterval\<close>, \<^verbatim>\<open>clearTimeout\<close> and \<^verbatim>\<open>clearInterval\<close>,
  the fetch bindings install \<^verbatim>\<open>fetch\<close>; a failing registration returns an error.
\<close>

definition timers_ok :: host_binding where
  "timers_ok v lo =
     (None, v\<lparr>globals := globals v @
        [''setTimeout'', ''setInterval'', ''clearTimeout'', ''clearInterval'']\<rparr>)"

definition fetch_ok :: host_binding where
  "fetch_ok v lo = (None, v\<lparr>globals := globals v @ [''fetch'']\<rparr>)"

definition timers_failing :: host_binding where
  "timers_failing v lo = (Some (ErrorString 0 ''cannot set setTimeout''), v)"

definition fetch_failing :: host_binding where
  "fetch_failing v lo = (Some (ErrorString 1 ''cannot set fetch''), v)"

definition fn_throws :: otto_fn where
  "fn_throws args v = (Threw ''TypeError'', v)"

definition fn_returns :: otto_fn where
  "fn_returns args v = (Returned ''undefined'', v)"

definition world0 :: world where
  "world0 = \<lparr>now = 0, next_addr = 3\<rparr>"

definition cell1 :: cell where
  "cell1 = NewCell timers_ok fetch_ok ''cell-1''"

definition fault :: error where
  "fault = Some (ErrorString 2 ''interpreter fault'')"

section \<open>Registration of the host bindings\<close>

text \<open>
  C9. \<^verbatim>\<open>registerVMHandlers\<close> runs the timer registration first. If that returns an
  error, the result is that error and the VM as the timer registration left it, whatever
  the fetch registration would do: it is not called. Otherwise the fetch registration
  runs on the VM the timer registration left, and its result is the result. The result is
  \<^verbatim>\<open>nil\<close> exactly when both registrations returned \<^verbatim>\<open>nil\<close>.
\<close>

theorem registerVMHandlers_first_error:
  "registerVMHandlers td fd v lo =
     (if fst (td v lo) \<noteq> None then td v lo else fd (snd (td v lo)) lo)
   \<and> (fst (registerVMHandlers td fd v lo) = None
        \<longleftrightarrow> fst (td v lo) = None \<and> fst (fd (snd (td v lo)) lo) = None)"
  by (cases "td v lo"; cases "fd (snd (td v lo)) lo")
     (auto simp: registerVMHandlers_def split: option.splits)

text \<open>
  The four combinations of a failing and a succeeding registration, on a new VM.
\<close>

theorem registerVMHandlers_first_error_witness:
  "registerVMHandlers timers_failing fetch_ok vm_New (loop_New vm_New)
     = (Some (ErrorString 0 ''cannot set setTimeout''), \<lparr>globals = []\<rparr>)
   \<and> registerVMHandlers timers_failing fetch_failing vm_New (loop_New vm_New)
     = (Some (ErrorString 0 ''cannot set setTimeout''), \<lparr>globals = []\<rparr>)
   \<and> registerVMHandlers timers_ok fetch_failing vm_New (loop_New vm_New)
     = (Some (ErrorString 1 ''cannot set fetch''),
        \<lparr>globals = [''setTimeout'', ''setInterval'', ''clearTimeout'', ''clearInterval'']\<rparr>)
   \<and> registerVMHandlers timers_ok fetch_ok vm_New (loop_New vm_New)
     = (None,
        \<lparr>globals = [''setTimeout'', ''setInterval'', ''clearTimeout'', ''clearInterval'',
           ''fetch'']\<rparr>)"
  using registerVMHandlers_first_error[of timers_failing fetch_ok vm_New "loop_New vm_New"]
    registerVMHandlers_first_error[of timers_failing fetch_failing vm_New "loop_New vm_New"]
    registerVMHandlers_first_error[of timers_ok fetch_failing vm_New "loop_New vm_New"]
    registerVMHandlers_first_error[of timers_ok fetch_ok vm_New "loop_New vm_New"]
  by (simp add: timers_failing_def timers_ok_def fetch_failing_def fetch_ok_def vm_New_def)

text \<open>
  C1. \<^verbatim>\<open>NewCell\<close> drops the error of \<^verbatim>\<open>registerVMHandlers\<close>: with a timer
  registration that fails, \<^verbatim>\<open>registerVMHandlers\<close> returns the error, and \<^verbatim>\<open>NewCell\<close>
  still returns a cell, with none of the bindings installed and its goroutine started.
\<close>

theorem NewCell_drops_registration_error:
  "fst (registerVMHandlers timers_failing fetch_ok vm_New (loop_New vm_New))
     = Some (ErrorString 0 ''cannot set setTimeout'')
   \<and> NewCell timers_failing fetch_ok ''cell-1''
     = \<lparr>VM = \<lparr>globals = []\<rparr>, cell_id = ''cell-1'', cancelled = False,
        loop = \<lparr>next_id = 0, tasks = [], finished = []\<rparr>,
        loopStopped = False, loopErr = None, thread = Running, loopErr_assigned = 0\<rparr>"
  by (simp add: NewCell_def registerVMHandlers_def timers_failing_def vm_New_def loop_New_def)

section \<open>The goroutine that runs the loop\<close>

lemma NewCell_eq:
  "NewCell td fd ident =
     \<lparr>VM = snd (registerVMHandlers td fd vm_New (loop_New vm_New)), cell_id = ident,
      cancelled = False, loop = loop_New vm_New, loopStopped = False, loopErr = None,
      thread = Running, loopErr_assigned = 0\<rparr>"
  by (simp add: NewCell_def Let_def split: prod.splits)

lemma goroutine_inv_fields:
  "thread c' = thread c \<Longrightarrow> loopErr c' = loopErr c \<Longrightarrow> loopStopped c' = loopStopped c \<Longrightarrow>
     loopErr_assigned c' = loopErr_assigned c \<Longrightarrow> goroutine_inv r c' = goroutine_inv r c"
  by (cases "thread c") (simp_all add: goroutine_inv_def)

lemma goroutine_inv_NewCell: "goroutine_inv r (NewCell td fd ident)"
  by (simp add: goroutine_inv_def NewCell_eq)

lemma goroutine_inv_step:
  "goroutine_inv r c \<Longrightarrow> goroutine_inv r (loop_goroutine_step r c)"
  by (cases "thread c")
     (auto simp: goroutine_inv_def loop_goroutine_step_def terminal_error_def)

lemma goroutine_inv_funpow:
  "goroutine_inv r c \<Longrightarrow> goroutine_inv r ((loop_goroutine_step r ^^ k) c)"
  by (induction k) (auto intro: goroutine_inv_step)

lemma goroutine_inv_cancel: "goroutine_inv r (cancel c) = goroutine_inv r c"
  by (rule goroutine_inv_fields) (simp_all add: cancel_def)

lemma goroutine_inv_stopped:
  "goroutine_inv r c \<Longrightarrow> loopStopped c \<Longrightarrow> thread c = Exited \<and> loopErr c = terminal_error r"
  by (cases "thread c") (auto simp: goroutine_inv_def)


lemma goroutine_inv_assigned:
  "goroutine_inv r c \<Longrightarrow> loopErr_assigned c \<le> 1"
  by (cases "thread c") (auto simp: goroutine_inv_def)

lemma goroutine_inv_assigning_step:
  "goroutine_inv r c \<Longrightarrow>
     loopErr_assigned (loop_goroutine_step r c) \<noteq> loopErr_assigned c \<Longrightarrow>
     thread c = RunReturned r \<and> \<not> loopStopped c \<and> \<not> loopStopped (loop_goroutine_step r c)"
  by (cases "thread c")
     (auto simp: goroutine_inv_def loop_goroutine_step_def split: if_splits)

lemma step_cancelled: "cancelled (loop_goroutine_step r c) = cancelled c"
  by (cases "thread c") (simp_all add: loop_goroutine_step_def)

lemma funpow_cancelled: "cancelled ((loop_goroutine_step r ^^ k) c) = cancelled c"
  by (induction k) (simp_all add: step_cancelled)

lemma step_loop: "loop (loop_goroutine_step r c) = loop c"
  by (cases "thread c") (simp_all add: loop_goroutine_step_def)

lemma funpow_loop: "loop ((loop_goroutine_step r ^^ k) c) = loop c"
  by (induction k) (simp_all add: step_loop)

lemma exited_step: "thread c = Exited \<Longrightarrow> loop_goroutine_step r c = c"
  by (simp add: loop_goroutine_step_def)

lemma exited_funpow: "thread c = Exited \<Longrightarrow> (loop_goroutine_step r ^^ k) c = c"
  by (induction k) (auto simp: exited_step)

lemma cancel_idem: "cancel (cancel c) = cancel c"
  by (simp add: cancel_def)

lemma cancel_cancelled: "cancelled c \<Longrightarrow> cancel c = c"
  by (simp add: cancel_def)

section \<open>Waiting in Stop\<close>

lemma select_wait_signalled:
  "select_wait r rem sched c = (sig, c', t) \<Longrightarrow> sig = loopStopped c'"
  by (induction r rem sched c arbitrary: sig c' t rule: select_wait.induct)
     (auto split: if_splits prod.splits)

lemma select_wait_closed:
  "loopStopped c \<Longrightarrow> select_wait r rem sched c = (True, c, 0)"
  by (cases sched) simp_all

lemma select_wait_elapsed:
  "select_wait r rem sched c = (sig, c', t) \<Longrightarrow> t \<le> rem \<and> (\<not> sig \<longrightarrow> t = rem)"
proof (induction r rem sched c arbitrary: sig c' t rule: select_wait.induct)
  case (1 r remaining c)
  then show ?case by (auto split: if_splits)
next
  case (2 r remaining d ds c)
  show ?case
  proof (cases "loopStopped c")
    case True
    with 2 show ?thesis by auto
  next
    case ns: False
    show ?thesis
    proof (cases "d < remaining")
      case True
      obtain s1 c1 t1 where
        sw: "select_wait r (remaining - d) ds (loop_goroutine_step r c) = (s1, c1, t1)"
        by (metis prod_cases3)
      from "2.IH"[OF ns True sw]
      have "t1 \<le> remaining - d \<and> (\<not> s1 \<longrightarrow> t1 = remaining - d)" .
      moreover from "2.prems" ns True sw have "sig = s1" "t = d + t1" by auto
      ultimately show ?thesis using True by auto
    next
      case False
      with 2 ns show ?thesis by auto
    qed
  qed
qed

lemma select_wait_early:
  "select_wait r rem sched c = (True, c', t) \<Longrightarrow> 0 < rem \<Longrightarrow> t < rem"
proof (induction r rem sched c arbitrary: c' t rule: select_wait.induct)
  case (1 r remaining c)
  then show ?case by (auto split: if_splits)
next
  case (2 r remaining d ds c)
  show ?case
  proof (cases "loopStopped c")
    case True
    with 2 show ?thesis by auto
  next
    case ns: False
    show ?thesis
    proof (cases "d < remaining")
      case True
      obtain s1 c1 t1 where
        sw: "select_wait r (remaining - d) ds (loop_goroutine_step r c) = (s1, c1, t1)"
        by (metis prod_cases3)
      from "2.prems" ns True sw have e: "s1 = True" "t = d + t1" "c' = c1" by auto
      from "2.IH"[OF ns True] sw e True have "t1 < remaining - d" by auto
      with e True show ?thesis by auto
    next
      case False
      with 2 ns show ?thesis by auto
    qed
  qed
qed

text \<open>While the caller waits, the cell changes only by statements of the goroutine.\<close>

lemma select_wait_steps:
  "select_wait r rem sched c = (sig, c', t) \<Longrightarrow> \<exists>k. c' = (loop_goroutine_step r ^^ k) c"
proof (induction r rem sched c arbitrary: sig c' t rule: select_wait.induct)
  case (1 r remaining c)
  then have "c' = (loop_goroutine_step r ^^ 0) c" by (auto split: if_splits)
  then show ?case by blast
next
  case (2 r remaining d ds c)
  show ?case
  proof (cases "\<not> loopStopped c \<and> d < remaining")
    case True
    obtain s1 c1 t1 where
      sw: "select_wait r (remaining - d) ds (loop_goroutine_step r c) = (s1, c1, t1)"
      by (metis prod_cases3)
    from "2.prems" True sw have e: "c' = c1" by auto
    from "2.IH" True sw obtain k where
      "c1 = (loop_goroutine_step r ^^ k) (loop_goroutine_step r c)" by blast
    then have "c' = (loop_goroutine_step r ^^ Suc k) c" using e by (simp add: funpow_swap1)
    then show ?thesis by blast
  next
    case False
    with 2 have "c' = (loop_goroutine_step r ^^ 0) c" by (auto split: if_splits)
    then show ?thesis by blast
  qed
qed

lemma Stop_parts:
  assumes "Stop r sched c w = (e, c', w')"
  shows "\<exists>sig t. select_wait r second sched (cancel c) = (sig, c', t)
    \<and> now w' = now w + t
    \<and> (sig \<longrightarrow> e = loopErr c' \<and> next_addr w' = next_addr w)
    \<and> (\<not> sig \<longrightarrow> e = Some (ErrorString (next_addr w) ''stopping the cell timed out'')
           \<and> next_addr w' = Suc (next_addr w))"
proof -
  obtain sig c2 t where sw: "select_wait r second sched (cancel c) = (sig, c2, t)"
    by (metis prod_cases3)
  show ?thesis
  proof (cases sig)
    case True
    with assms sw have "c' = c2 \<and> e = loopErr c2 \<and> w' = w\<lparr>now := now w + t\<rparr>"
      by (auto simp: Stop_def)
    with sw True show ?thesis by auto
  next
    case False
    with assms sw have "c' = c2
      \<and> e = Some (ErrorString (next_addr w) ''stopping the cell timed out'')
      \<and> w' = w\<lparr>now := now w + t, next_addr := Suc (next_addr w)\<rparr>"
      by (auto simp: Stop_def errors_New_def)
    with sw False show ?thesis by auto
  qed
qed

text \<open>
  What a call of \<^verbatim>\<open>Stop\<close> does, by the case its \<^verbatim>\<open>select\<close> takes: the cell it
  leaves has the channel closed exactly when the receive from \<^verbatim>\<open>loopStopped\<close> was
  taken.
\<close>

lemma Stop_facts:
  assumes "Stop r sched c w = (e, c', w')"
  shows "cancelled c'"
    and "\<exists>k. c' = (loop_goroutine_step r ^^ k) (cancel c)"
    and "now w \<le> now w'" and "now w' \<le> now w + second"
    and "\<not> loopStopped c' \<Longrightarrow>
           e = Some (ErrorString (next_addr w) ''stopping the cell timed out'')
           \<and> now w' = now w + second \<and> next_addr w' = Suc (next_addr w)"
    and "loopStopped c' \<Longrightarrow>
           e = loopErr c' \<and> now w' < now w + second \<and> next_addr w' = next_addr w"
proof -
  from Stop_parts[OF assms] obtain sig t where
    sw: "select_wait r second sched (cancel c) = (sig, c', t)" and
    tm: "now w' = now w + t" and
    ex: "sig \<longrightarrow> e = loopErr c' \<and> next_addr w' = next_addr w" and
    to: "\<not> sig \<longrightarrow> e = Some (ErrorString (next_addr w) ''stopping the cell timed out'')
           \<and> next_addr w' = Suc (next_addr w)"
    by blast
  from select_wait_steps[OF sw] obtain k where
    k: "c' = (loop_goroutine_step r ^^ k) (cancel c)" by blast
  then show "\<exists>k. c' = (loop_goroutine_step r ^^ k) (cancel c)" by blast
  from k show "cancelled c'" by (simp add: funpow_cancelled cancel_def)
  from select_wait_elapsed[OF sw] have el: "t \<le> second" "\<not> sig \<longrightarrow> t = second" by simp_all
  from select_wait_signalled[OF sw] have sg: "sig = loopStopped c'" .
  from tm show "now w \<le> now w'" by simp
  from tm el show "now w' \<le> now w + second" by simp
  show "e = Some (ErrorString (next_addr w) ''stopping the cell timed out'')
           \<and> now w' = now w + second \<and> next_addr w' = Suc (next_addr w)"
    if "\<not> loopStopped c'"
    using that sg to el tm by simp
  show "e = loopErr c' \<and> now w' < now w + second \<and> next_addr w' = next_addr w"
    if st: "loopStopped c'"
  proof -
    from sw sg st have "select_wait r second sched (cancel c) = (True, c', t)" by simp
    then have "t < second" by (rule select_wait_early) (simp add: second_def)
    with st sg ex tm show ?thesis by simp
  qed
qed

lemma goroutine_inv_Stop:
  "Stop r sched c w = (e, c', w') \<Longrightarrow> goroutine_inv r c \<Longrightarrow> goroutine_inv r c'"
  using Stop_facts(2) goroutine_inv_funpow goroutine_inv_cancel by metis

lemma exited_Stop:
  assumes "thread c = Exited" "Stop r sched c w = (e, c', w')"
  shows "c' = cancel c"
proof -
  from Stop_facts(2)[OF assms(2)] obtain k where
    "c' = (loop_goroutine_step r ^^ k) (cancel c)" by blast
  moreover have "thread (cancel c) = Exited" using assms(1) by (simp add: cancel_def)
  ultimately show ?thesis by (simp add: exited_funpow)
qed

section \<open>CallAsync and the histories of a cell\<close>

lemma CallAsync_fields:
  "thread (snd (CallAsync c fn args)) = thread c
   \<and> loopErr (snd (CallAsync c fn args)) = loopErr c
   \<and> loopStopped (snd (CallAsync c fn args)) = loopStopped c
   \<and> loopErr_assigned (snd (CallAsync c fn args)) = loopErr_assigned c
   \<and> cancelled (snd (CallAsync c fn args)) = cancelled c
   \<and> cell_id (snd (CallAsync c fn args)) = cell_id c"
  by (auto simp: CallAsync_def loop_Ready_def Let_def split: prod.splits option.splits)

lemma CallAsync_picking:
  assumes "loop_picking c"
  shows "CallAsync c fn args =
     (Some (),
      c\<lparr>VM := snd (fn args (VM c)),
        loop := (loop c)\<lparr>next_id := Suc (next_id (loop c)),
                  tasks := filter (\<lambda>u. task_id u \<noteq> next_id (loop c)) (tasks (loop c)),
                  finished := finished (loop c) @ [next_id (loop c)]\<rparr>\<rparr>)"
  using assms
  by (cases "fn args (VM c)")
     (simp add: CallAsync_def loop_Ready_def loop_Add_def NewCallTask_def Let_def)

lemma CallAsync_blocked:
  assumes "\<not> loop_picking c"
  shows "CallAsync c fn args =
     (None,
      c\<lparr>loop := (loop c)\<lparr>next_id := Suc (next_id (loop c)),
                  tasks := tasks (loop c) @
                    [\<lparr>task_id = next_id (loop c), task_fn = fn, task_args = args\<rparr>]\<rparr>\<rparr>)"
  using assms
  by (simp add: CallAsync_def loop_Ready_def loop_Add_def NewCallTask_def Let_def)

lemma filter_fresh:
  "list_all (\<lambda>t. task_id t < n) ts \<Longrightarrow> filter (\<lambda>u. task_id u \<noteq> n) ts = ts"
  by (induction ts) auto

lemma loop_wf_CallAsync:
  "loop_wf (loop c) \<Longrightarrow> loop_wf (loop (snd (CallAsync c fn args)))"
proof (cases "loop_picking c")
  case True
  assume wf: "loop_wf (loop c)"
  then have "filter (\<lambda>u. task_id u \<noteq> next_id (loop c)) (tasks (loop c)) = tasks (loop c)"
    by (simp add: loop_wf_def filter_fresh)
  with wf show ?thesis
    by (auto simp: CallAsync_picking[OF True] loop_wf_def list_all_iff)
next
  case False
  assume wf: "loop_wf (loop c)"
  then show ?thesis
    by (auto simp: CallAsync_blocked[OF False] loop_wf_def list_all_iff)
qed

lemma loop_wf_NewCell: "loop_wf (loop (NewCell td fd ident))"
  by (simp add: NewCell_eq loop_New_def loop_wf_def)

lemma goroutine_inv_CallAsync:
  "goroutine_inv r c \<Longrightarrow> goroutine_inv r (snd (CallAsync c fn args))"
  using CallAsync_fields[of c fn args] goroutine_inv_fields[of "snd (CallAsync c fn args)" c r]
  by simp

lemma cell_inv_do_action:
  assumes "cell_inv r (fst cw)"
  shows "cell_inv r (fst (do_action r a cw))"
proof (cases cw)
  case (Pair c w)
  with assms have inv: "goroutine_inv r c" and wf: "loop_wf (loop c)"
    by (simp_all add: cell_inv_def)
  show ?thesis
  proof (cases a)
    case GoroutineStep
    with Pair inv wf show ?thesis by (simp add: cell_inv_def goroutine_inv_step step_loop)
  next
    case (StopCall sched)
    obtain e c' w' where s: "Stop r sched c w = (e, c', w')" by (metis prod_cases3)
    from Stop_facts(2)[OF s] have "loop c' = loop c" by (auto simp: funpow_loop cancel_def)
    with Pair StopCall s inv wf show ?thesis
      using goroutine_inv_Stop[OF s] by (simp add: cell_inv_def)
  next
    case (Call fn args)
    with Pair inv wf show ?thesis
      by (simp add: cell_inv_def goroutine_inv_CallAsync loop_wf_CallAsync)
  next
    case (Sleep d)
    with Pair inv wf show ?thesis by (simp add: cell_inv_def)
  qed
qed

lemma cell_inv_cell_after:
  "cell_inv r (fst cw) \<Longrightarrow> cell_inv r (fst (cell_after r acts cw))"
proof (induction acts arbitrary: cw)
  case Nil
  then show ?case by simp
next
  case (Cons a acts)
  from Cons.prems have "cell_inv r (fst (do_action r a cw))" by (rule cell_inv_do_action)
  then have "cell_inv r (fst (cell_after r acts (do_action r a cw)))" by (rule Cons.IH)
  then show ?case by simp
qed

lemma cell_inv_history:
  "cell_after r acts (NewCell td fd ident, w0) = (c, w) \<Longrightarrow> cell_inv r c"
  using cell_inv_cell_after[of r "(NewCell td fd ident, w0)" acts]
  by (simp add: cell_inv_def goroutine_inv_NewCell loop_wf_NewCell)

lemma do_action_cancelled:
  assumes "cancelled (fst cw)"
  shows "cancelled (fst (do_action r a cw))"
proof (cases cw)
  case (Pair c w)
  show ?thesis
  proof (cases a)
    case GoroutineStep
    with Pair assms show ?thesis by (simp add: step_cancelled)
  next
    case (StopCall sched)
    obtain e c' w' where s: "Stop r sched c w = (e, c', w')" by (metis prod_cases3)
    with Pair StopCall show ?thesis using Stop_facts(1)[OF s] by simp
  next
    case (Call fn args)
    with Pair assms show ?thesis using CallAsync_fields[of c fn args] by simp
  next
    case (Sleep d)
    with Pair assms show ?thesis by simp
  qed
qed

lemma cell_after_cancelled:
  "cancelled (fst cw) \<Longrightarrow> cancelled (fst (cell_after r acts cw))"
proof (induction acts arbitrary: cw)
  case Nil
  then show ?case by simp
next
  case (Cons a acts)
  from Cons.prems have "cancelled (fst (do_action r a cw))" by (rule do_action_cancelled)
  then have "cancelled (fst (cell_after r acts (do_action r a cw)))" by (rule Cons.IH)
  then show ?case by simp
qed

text \<open>Once the goroutine has exited, no action changes what it left.\<close>

lemma exited_do_action:
  assumes "thread (fst cw) = Exited"
  shows "thread (fst (do_action r a cw)) = Exited
     \<and> loopErr (fst (do_action r a cw)) = loopErr (fst cw)
     \<and> loopStopped (fst (do_action r a cw)) = loopStopped (fst cw)
     \<and> loopErr_assigned (fst (do_action r a cw)) = loopErr_assigned (fst cw)"
proof (cases cw)
  case (Pair c w)
  show ?thesis
  proof (cases a)
    case GoroutineStep
    with Pair assms show ?thesis by (simp add: exited_step)
  next
    case (StopCall sched)
    obtain e c' w' where s: "Stop r sched c w = (e, c', w')" by (metis prod_cases3)
    with Pair assms StopCall show ?thesis using exited_Stop[OF _ s] by (simp add: cancel_def)
  next
    case (Call fn args)
    with Pair assms show ?thesis using CallAsync_fields[of c fn args] by simp
  next
    case (Sleep d)
    with Pair assms show ?thesis by simp
  qed
qed

lemma exited_cell_after:
  "thread (fst cw) = Exited \<Longrightarrow>
     thread (fst (cell_after r acts cw)) = Exited
     \<and> loopErr (fst (cell_after r acts cw)) = loopErr (fst cw)
     \<and> loopStopped (fst (cell_after r acts cw)) = loopStopped (fst cw)
     \<and> loopErr_assigned (fst (cell_after r acts cw)) = loopErr_assigned (fst cw)"
proof (induction acts arbitrary: cw)
  case Nil
  then show ?case by simp
next
  case (Cons a acts)
  from exited_do_action[OF Cons.prems, of r a] Cons.IH[of "do_action r a cw"]
  show ?case by simp
qed


text \<open>The equations that run the definitions on the sample cell.\<close>

lemmas run_simps =
  Stop_def NewCell_eq cancel_def second_def loop_goroutine_step_def world0_def errors_New_def
  registerVMHandlers_def timers_ok_def fetch_ok_def vm_New_def loop_New_def cell1_def fault_def

lemmas call_simps =
  CallAsync_def loop_Ready_def loop_Add_def NewCallTask_def loop_picking_def
  fn_throws_def fn_returns_def Let_def

section \<open>Stop\<close>

text \<open>
  C3. \<^verbatim>\<open>Stop\<close> trips the cancellation first: the cell it leaves is cancelled, and it is
  the cancelled cell that the goroutine's statements act on while the caller waits. The
  call returns no later than one second after it began. If the exit signal has not been
  received by then (the channel of the cell it leaves is still open), the result is the
  error made by \<^verbatim>\<open>errors.New("stopping the cell timed out")\<close>, and the call returns
  exactly one second after it began: it does not wait further.
\<close>

theorem Stop_bounded_wait:
  assumes "Stop r sched c w = (e, c', w')"
  shows "cancelled c'
    \<and> (\<exists>k. c' = (loop_goroutine_step r ^^ k) (cancel c))
    \<and> now w \<le> now w' \<and> now w' \<le> now w + second
    \<and> (\<not> loopStopped c' \<longrightarrow>
          e = Some (ErrorString (next_addr w) ''stopping the cell timed out'')
          \<and> now w' = now w + second)"
  using Stop_facts[OF assms] by blast

text \<open>
  A run that times out: the goroutine executes two statements, 5 ns apart, and then
  nothing more within the second.
\<close>

theorem Stop_bounded_wait_witness:
  "Stop (Some Canceled) [5, 5] cell1 world0 =
     (Some (ErrorString 3 ''stopping the cell timed out''),
      loop_goroutine_step (Some Canceled) (loop_goroutine_step (Some Canceled) (cancel cell1)),
      \<lparr>now = 1000000000, next_addr = 4\<rparr>)
   \<and> \<not> loopStopped
        (loop_goroutine_step (Some Canceled) (loop_goroutine_step (Some Canceled) (cancel cell1)))
   \<and> cancelled
        (loop_goroutine_step (Some Canceled) (loop_goroutine_step (Some Canceled) (cancel cell1)))
   \<and> now \<lparr>now = 1000000000, next_addr = 4\<rparr> = now world0 + second"
proof -
  have run: "Stop (Some Canceled) [5, 5] cell1 world0 =
     (Some (ErrorString 3 ''stopping the cell timed out''),
      loop_goroutine_step (Some Canceled) (loop_goroutine_step (Some Canceled) (cancel cell1)),
      \<lparr>now = 1000000000, next_addr = 4\<rparr>)"
    by (simp add: run_simps)
  have open_still: "\<not> loopStopped
        (loop_goroutine_step (Some Canceled) (loop_goroutine_step (Some Canceled) (cancel cell1)))"
    by (simp add: run_simps)
  from Stop_bounded_wait[OF run] open_still run show ?thesis
    by (simp add: world0_def)
qed



text \<open>
  C5. Calling \<^verbatim>\<open>Stop\<close> a second time, after anything that happened in between.
  Tripping the cancellation twice is tripping it once, and the second call's trip changes
  nothing. If the channel is already closed when the second call starts, the call returns
  at once, leaves the cell as it is and returns \<^verbatim>\<open>loopErr\<close>, which is what the first
  call returned if that one received the exit signal too. In every case the second call
  returns within one second of its own start, and if it does not receive the exit signal,
  it returns the timeout error exactly one second after its start.
\<close>

theorem Stop_twice:
  assumes "cell_after r acts (NewCell td fd ident, w0) = (c, w)"
    and "Stop r s1 c w = (e1, c1, w1)"
    and "cell_after r between (c1, w1) = (c2, w2)"
    and "Stop r s2 c2 w2 = (e2, c3, w3)"
  shows "cancel (cancel c) = cancel c \<and> cancel c2 = c2
    \<and> now w3 \<le> now w2 + second
    \<and> (loopStopped c2 \<longrightarrow>
          now w3 = now w2 \<and> c3 = c2 \<and> e2 = loopErr c2 \<and> (loopStopped c1 \<longrightarrow> e2 = e1))
    \<and> (\<not> loopStopped c3 \<longrightarrow>
          e2 = Some (ErrorString (next_addr w2) ''stopping the cell timed out'')
          \<and> now w3 = now w2 + second)"
proof -
  have "goroutine_inv r c" using cell_inv_history[OF assms(1)] by (simp add: cell_inv_def)
  then have inv1: "goroutine_inv r c1" using assms(2) goroutine_inv_Stop by blast
  have "cancelled (fst (cell_after r between (c1, w1)))"
    by (rule cell_after_cancelled) (simp add: Stop_facts(1)[OF assms(2)])
  then have idem2: "cancel c2 = c2" using assms(3) by (simp add: cancel_cancelled)
  have bound: "now w3 \<le> now w2 + second"
    by (rule Stop_facts(4)[OF assms(4)])
  have timeout: "\<not> loopStopped c3 \<longrightarrow>
          e2 = Some (ErrorString (next_addr w2) ''stopping the cell timed out'')
          \<and> now w3 = now w2 + second"
    using Stop_facts(5)[OF assms(4)] by simp
  have prompt: "now w3 = now w2 \<and> c3 = c2 \<and> e2 = loopErr c2 \<and> (loopStopped c1 \<longrightarrow> e2 = e1)"
    if st: "loopStopped c2"
  proof -
    from Stop_parts[OF assms(4)] obtain sig t where
      sw: "select_wait r second s2 (cancel c2) = (sig, c3, t)" and
      tm: "now w3 = now w2 + t" and
      ex: "sig \<longrightarrow> e2 = loopErr c3 \<and> next_addr w3 = next_addr w2"
      by blast
    from sw idem2 select_wait_closed[OF st, of r second s2]
    have "sig \<and> c3 = c2 \<and> t = 0" by simp
    with tm ex have a: "now w3 = now w2 \<and> c3 = c2 \<and> e2 = loopErr c2" by simp
    have "e2 = e1" if st1: "loopStopped c1"
    proof -
      from inv1 st1 have "thread c1 = Exited" using goroutine_inv_stopped by blast
      with exited_cell_after[of "(c1, w1)" r between] assms(3)
      have "loopErr c2 = loopErr c1" by simp
      moreover from Stop_facts(6)[OF assms(2) st1] have "e1 = loopErr c1" by simp
      ultimately show ?thesis using a by simp
    qed
    with a show ?thesis by simp
  qed
  show ?thesis using cancel_idem idem2 bound timeout prompt by blast
qed

text \<open>
  The first call times out; 10 ns later the goroutine closes the channel and a second
  call returns the fatal error at once. A second call made while the channel is still
  open waits its own full second and times out. And when the first call has received the
  exit signal and returned the fatal error, a second call returns the same error at once.
\<close>

theorem Stop_twice_witness:
  "Stop fault [5, 5] cell1 world0 =
     (Some (ErrorString 3 ''stopping the cell timed out''),
      (loop_goroutine_step fault ^^ 2) (cancel cell1), \<lparr>now = 1000000000, next_addr = 4\<rparr>)
   \<and> cell_after fault [Sleep 10, GoroutineStep]
        ((loop_goroutine_step fault ^^ 2) (cancel cell1), \<lparr>now = 1000000000, next_addr = 4\<rparr>)
      = ((loop_goroutine_step fault ^^ 3) (cancel cell1), \<lparr>now = 1000000010, next_addr = 4\<rparr>)
   \<and> loopStopped ((loop_goroutine_step fault ^^ 3) (cancel cell1))
   \<and> Stop fault [] ((loop_goroutine_step fault ^^ 3) (cancel cell1))
        \<lparr>now = 1000000010, next_addr = 4\<rparr>
      = (fault, (loop_goroutine_step fault ^^ 3) (cancel cell1),
         \<lparr>now = 1000000010, next_addr = 4\<rparr>)
   \<and> Stop fault [] ((loop_goroutine_step fault ^^ 2) (cancel cell1))
        \<lparr>now = 1000000000, next_addr = 4\<rparr>
      = (Some (ErrorString 4 ''stopping the cell timed out''),
         (loop_goroutine_step fault ^^ 2) (cancel cell1), \<lparr>now = 2000000000, next_addr = 5\<rparr>)
   \<and> \<not> loopStopped ((loop_goroutine_step fault ^^ 2) (cancel cell1))
   \<and> Stop fault [7, 7, 7] cell1 world0 =
       (fault, (loop_goroutine_step fault ^^ 3) (cancel cell1), \<lparr>now = 21, next_addr = 3\<rparr>)
   \<and> Stop fault [9] ((loop_goroutine_step fault ^^ 3) (cancel cell1)) \<lparr>now = 21, next_addr = 3\<rparr>
      = (fault, (loop_goroutine_step fault ^^ 3) (cancel cell1), \<lparr>now = 21, next_addr = 3\<rparr>)"
proof -
  have h: "cell_after fault [] (NewCell timers_ok fetch_ok ''cell-1'', world0) = (cell1, world0)"
    by (simp add: cell1_def)
  have s1: "Stop fault [5, 5] cell1 world0 =
     (Some (ErrorString 3 ''stopping the cell timed out''),
      (loop_goroutine_step fault ^^ 2) (cancel cell1), \<lparr>now = 1000000000, next_addr = 4\<rparr>)"
    by (simp add: run_simps numeral_2_eq_2)
  have b: "cell_after fault [Sleep 10, GoroutineStep]
        ((loop_goroutine_step fault ^^ 2) (cancel cell1), \<lparr>now = 1000000000, next_addr = 4\<rparr>)
      = ((loop_goroutine_step fault ^^ 3) (cancel cell1), \<lparr>now = 1000000010, next_addr = 4\<rparr>)"
    by (simp add: numeral_2_eq_2 numeral_3_eq_3)
  have b0: "cell_after fault []
        ((loop_goroutine_step fault ^^ 2) (cancel cell1), \<lparr>now = 1000000000, next_addr = 4\<rparr>)
      = ((loop_goroutine_step fault ^^ 2) (cancel cell1), \<lparr>now = 1000000000, next_addr = 4\<rparr>)"
    by simp
  have st: "loopStopped ((loop_goroutine_step fault ^^ 3) (cancel cell1))"
    by (simp add: run_simps numeral_3_eq_3)
  have nst: "\<not> loopStopped ((loop_goroutine_step fault ^^ 2) (cancel cell1))"
    by (simp add: run_simps numeral_2_eq_2)
  have s2: "Stop fault [] ((loop_goroutine_step fault ^^ 3) (cancel cell1))
        \<lparr>now = 1000000010, next_addr = 4\<rparr>
      = (fault, (loop_goroutine_step fault ^^ 3) (cancel cell1),
         \<lparr>now = 1000000010, next_addr = 4\<rparr>)"
    by (simp add: run_simps numeral_3_eq_3)
  have s3: "Stop fault [] ((loop_goroutine_step fault ^^ 2) (cancel cell1))
        \<lparr>now = 1000000000, next_addr = 4\<rparr>
      = (Some (ErrorString 4 ''stopping the cell timed out''),
         (loop_goroutine_step fault ^^ 2) (cancel cell1), \<lparr>now = 2000000000, next_addr = 5\<rparr>)"
    by (simp add: run_simps numeral_2_eq_2)
  have s4: "Stop fault [7, 7, 7] cell1 world0 =
       (fault, (loop_goroutine_step fault ^^ 3) (cancel cell1), \<lparr>now = 21, next_addr = 3\<rparr>)"
    by (simp add: run_simps numeral_3_eq_3)
  have b4: "cell_after fault []
        ((loop_goroutine_step fault ^^ 3) (cancel cell1), \<lparr>now = 21, next_addr = 3\<rparr>)
      = ((loop_goroutine_step fault ^^ 3) (cancel cell1), \<lparr>now = 21, next_addr = 3\<rparr>)"
    by simp
  have s5: "Stop fault [9] ((loop_goroutine_step fault ^^ 3) (cancel cell1))
        \<lparr>now = 21, next_addr = 3\<rparr>
      = (fault, (loop_goroutine_step fault ^^ 3) (cancel cell1), \<lparr>now = 21, next_addr = 3\<rparr>)"
    by (simp add: run_simps numeral_3_eq_3)
  from Stop_twice[OF h s1 b s2] Stop_twice[OF h s1 b0 s3] Stop_twice[OF h s4 b4 s5]
    s1 b st nst s2 s3 s4 s5
  show ?thesis by simp
qed

text \<open>
  C8. For a cell with any history since \<^verbatim>\<open>NewCell\<close>: the assignment to
  \<^verbatim>\<open>loopErr\<close> has been executed at most once; a statement of the goroutine that executes
  it finds the channel open and leaves it open; \<^verbatim>\<open>cancel\<close> and \<^verbatim>\<open>CallAsync\<close> do not
  write the field; once the channel is closed, no later history changes the field or
  assigns it again; and a call of \<^verbatim>\<open>Stop\<close> that receives the exit signal returns the
  value the goroutine left for good, which every later state of the cell still holds.
\<close>

theorem loopErr_final_before_exit_signal:
  assumes "cell_after r acts (NewCell td fd ident, w0) = (c, w)"
  shows "loopErr_assigned c \<le> 1
    \<and> (loopErr_assigned (loop_goroutine_step r c) \<noteq> loopErr_assigned c \<longrightarrow>
          \<not> loopStopped c \<and> \<not> loopStopped (loop_goroutine_step r c))
    \<and> loopErr (cancel c) = loopErr c \<and> loopErr_assigned (cancel c) = loopErr_assigned c
    \<and> loopErr (snd (CallAsync c fn args)) = loopErr c
    \<and> loopErr_assigned (snd (CallAsync c fn args)) = loopErr_assigned c
    \<and> (loopStopped c \<longrightarrow>
          (\<forall>later. loopErr (fst (cell_after r later (c, w))) = loopErr c
             \<and> loopErr_assigned (fst (cell_after r later (c, w))) = loopErr_assigned c))
    \<and> (\<forall>sched e c' w' later.
          Stop r sched c w = (e, c', w') \<and> loopStopped c' \<longrightarrow>
            e = terminal_error r \<and> loopErr (fst (cell_after r later (c', w'))) = e)"
proof -
  have inv: "goroutine_inv r c" using cell_inv_history[OF assms] by (simp add: cell_inv_def)
  have once: "loopErr_assigned c \<le> 1" using inv by (rule goroutine_inv_assigned)
  have before: "loopErr_assigned (loop_goroutine_step r c) \<noteq> loopErr_assigned c \<longrightarrow>
          \<not> loopStopped c \<and> \<not> loopStopped (loop_goroutine_step r c)"
    using goroutine_inv_assigning_step[OF inv] by blast
  have others: "loopErr (cancel c) = loopErr c \<and> loopErr_assigned (cancel c) = loopErr_assigned c
    \<and> loopErr (snd (CallAsync c fn args)) = loopErr c
    \<and> loopErr_assigned (snd (CallAsync c fn args)) = loopErr_assigned c"
    using CallAsync_fields[of c fn args] by (simp add: cancel_def)
  have frozen: "loopErr (fst (cell_after r later (c, w))) = loopErr c
             \<and> loopErr_assigned (fst (cell_after r later (c, w))) = loopErr_assigned c"
    if "loopStopped c" for later
  proof -
    from inv that have "thread c = Exited" using goroutine_inv_stopped by blast
    with exited_cell_after[of "(c, w)" r later] show ?thesis by simp
  qed
  have seen: "e = terminal_error r \<and> loopErr (fst (cell_after r later (c', w'))) = e"
    if s: "Stop r sched c w = (e, c', w')" and st: "loopStopped c'" for sched e c' w' later
  proof -
    from inv s have inv': "goroutine_inv r c'" using goroutine_inv_Stop by blast
    with st have ex: "thread c' = Exited" and le: "loopErr c' = terminal_error r"
      using goroutine_inv_stopped by blast+
    from Stop_facts(6)[OF s st] have "e = loopErr c'" by simp
    with exited_cell_after[of "(c', w')" r later] ex le show ?thesis by simp
  qed
  show ?thesis using once before others frozen seen by blast
qed

text \<open>
  With a fatal error from \<^verbatim>\<open>Run\<close>: after one statement the field is unassigned, the
  next statement assigns it and leaves the channel open; \<^verbatim>\<open>Stop\<close> then receives the
  exit signal and returns the error, and later calls and statements leave it in place.
\<close>

theorem loopErr_final_before_exit_signal_witness:
  "cell_after fault [GoroutineStep] (cell1, world0) = (loop_goroutine_step fault cell1, world0)
   \<and> loopErr_assigned (loop_goroutine_step fault cell1) = 0
   \<and> loopErr_assigned ((loop_goroutine_step fault ^^ 2) cell1) = 1
   \<and> \<not> loopStopped ((loop_goroutine_step fault ^^ 2) cell1)
   \<and> Stop fault [7, 7] (loop_goroutine_step fault cell1) world0 =
       (fault, (loop_goroutine_step fault ^^ 3) (cancel cell1), \<lparr>now = 14, next_addr = 3\<rparr>)
   \<and> loopStopped ((loop_goroutine_step fault ^^ 3) (cancel cell1))
   \<and> loopErr (fst (cell_after fault [GoroutineStep, StopCall [1], Call fn_throws [], Sleep 3]
        ((loop_goroutine_step fault ^^ 3) (cancel cell1), \<lparr>now = 14, next_addr = 3\<rparr>))) = fault
   \<and> cell_after fault [GoroutineStep, GoroutineStep, GoroutineStep] (cell1, world0)
       = ((loop_goroutine_step fault ^^ 3) cell1, world0)
   \<and> loopStopped ((loop_goroutine_step fault ^^ 3) cell1)
   \<and> loopErr (fst (cell_after fault [StopCall [], GoroutineStep]
        ((loop_goroutine_step fault ^^ 3) cell1, world0))) = fault
   \<and> loopErr_assigned (fst (cell_after fault [StopCall [], GoroutineStep]
        ((loop_goroutine_step fault ^^ 3) cell1, world0))) = 1"
proof -
  have h1: "cell_after fault [GoroutineStep] (NewCell timers_ok fetch_ok ''cell-1'', world0)
      = (loop_goroutine_step fault cell1, world0)"
    by (simp add: cell1_def)
  have a0: "loopErr_assigned (loop_goroutine_step fault cell1) = 0"
    by (simp add: run_simps)
  have a1: "loop_goroutine_step fault (loop_goroutine_step fault cell1)
      = (loop_goroutine_step fault ^^ 2) cell1"
    by (simp add: numeral_2_eq_2)
  have a2: "loopErr_assigned ((loop_goroutine_step fault ^^ 2) cell1) = 1"
    by (simp add: run_simps numeral_2_eq_2)
  have s1: "Stop fault [7, 7] (loop_goroutine_step fault cell1) world0 =
       (fault, (loop_goroutine_step fault ^^ 3) (cancel cell1), \<lparr>now = 14, next_addr = 3\<rparr>)"
    by (simp add: run_simps numeral_3_eq_3)
  have c1: "loopStopped ((loop_goroutine_step fault ^^ 3) (cancel cell1))"
    by (simp add: run_simps numeral_3_eq_3)
  have h3: "cell_after fault [GoroutineStep, GoroutineStep, GoroutineStep]
      (NewCell timers_ok fetch_ok ''cell-1'', world0)
       = ((loop_goroutine_step fault ^^ 3) cell1, world0)"
    by (simp add: cell1_def numeral_3_eq_3)
  have c3: "loopStopped ((loop_goroutine_step fault ^^ 3) cell1)"
    by (simp add: run_simps numeral_3_eq_3)
  have l3: "loopErr ((loop_goroutine_step fault ^^ 3) cell1) = fault"
    "loopErr_assigned ((loop_goroutine_step fault ^^ 3) cell1) = 1"
    by (simp_all add: run_simps numeral_3_eq_3)
  have f: "terminal_error fault = fault" by (simp add: terminal_error_def fault_def)
  note t1 = loopErr_final_before_exit_signal[OF h1, of fn_throws "[]"]
  note t3 = loopErr_final_before_exit_signal[OF h3, of fn_throws "[]"]
  from t1 a0 a1 a2 have p1: "\<not> loopStopped ((loop_goroutine_step fault ^^ 2) cell1)"
    by simp
  from t1 s1 c1 f have p2: "loopErr (fst (cell_after fault
        [GoroutineStep, StopCall [1], Call fn_throws [], Sleep 3]
        ((loop_goroutine_step fault ^^ 3) (cancel cell1), \<lparr>now = 14, next_addr = 3\<rparr>))) = fault"
    by blast
  from t3 c3 have "\<forall>later.
      loopErr (fst (cell_after fault later ((loop_goroutine_step fault ^^ 3) cell1, world0)))
        = loopErr ((loop_goroutine_step fault ^^ 3) cell1)
      \<and> loopErr_assigned
          (fst (cell_after fault later ((loop_goroutine_step fault ^^ 3) cell1, world0)))
        = loopErr_assigned ((loop_goroutine_step fault ^^ 3) cell1)"
    by blast
  with l3 have p3: "loopErr (fst (cell_after fault [StopCall [], GoroutineStep]
        ((loop_goroutine_step fault ^^ 3) cell1, world0))) = fault
   \<and> loopErr_assigned (fst (cell_after fault [StopCall [], GoroutineStep]
        ((loop_goroutine_step fault ^^ 3) cell1, world0))) = 1"
    by metis
  have h1': "cell_after fault [GoroutineStep] (cell1, world0)
      = (loop_goroutine_step fault cell1, world0)"
    using h1 by (simp only: cell1_def)
  have h3': "cell_after fault [GoroutineStep, GoroutineStep, GoroutineStep] (cell1, world0)
       = ((loop_goroutine_step fault ^^ 3) cell1, world0)"
    using h3 by (simp only: cell1_def)
  from h1' a0 a2 p1 s1 c1 p2 h3' c3 p3 show ?thesis by blast
qed



section \<open>CallAsync\<close>



text \<open>
  C2, as the claim states it, fails: \<^verbatim>\<open>CallAsync\<close> has no result. On a fresh cell a call
  with a function that throws and a call with a function that returns give the caller the
  same (empty) result and leave the same cell.
\<close>

theorem CallAsync_reports_nothing_counterexample:
  "fst (fn_throws [] (VM cell1)) = Threw ''TypeError''
   \<and> fst (fn_returns [] (VM cell1)) = Returned ''undefined''
   \<and> CallAsync cell1 fn_throws [] = CallAsync cell1 fn_returns []
   \<and> fst (CallAsync cell1 fn_throws []) = Some ()"
  by (simp add: run_simps call_simps)

text \<open>
  C2, amended. For a cell with any history since \<^verbatim>\<open>NewCell\<close> whose loop is picking
  tasks, and a function that throws a script exception on the given arguments:
  \<^verbatim>\<open>Ready\<close> delivers the exception to its caller, which is \<^verbatim>\<open>CallAsync\<close>;
  \<^verbatim>\<open>CallAsync\<close> returns, with no value, exactly what it returns for a function that has
  the same effect on the VM and returns normally; the loop is still picking tasks, its
  terminal error is untouched and its exit signal is not given; and a later \<^verbatim>\<open>CallAsync\<close>
  returns as well.
\<close>

theorem CallAsync_drops_script_exception:
  assumes "cell_after r acts (NewCell td fd ident, w0) = (c, w)"
    and "loop_picking c"
    and "fn args (VM c) = (Threw x, v)"
  shows "fst (loop_Ready (loop_picking c) (fst (loop_Add (NewCallTask fn args) (loop c)))
             (snd (loop_Add (NewCallTask fn args) (loop c))) (VM c)) = Some (Threw x)
    \<and> fst (CallAsync c fn args) = Some ()
    \<and> CallAsync c fn args = CallAsync c (\<lambda>a u. (Returned y, snd (fn a u))) args
    \<and> loop_picking (snd (CallAsync c fn args))
    \<and> loopErr (snd (CallAsync c fn args)) = loopErr c
    \<and> \<not> loopStopped (snd (CallAsync c fn args))
    \<and> fst (CallAsync (snd (CallAsync c fn args)) fn2 args2) = Some ()"
proof -
  have inv: "goroutine_inv r c" using cell_inv_history[OF assms(1)] by (simp add: cell_inv_def)
  with assms(2) have open_still: "\<not> loopStopped c"
    by (simp add: goroutine_inv_def loop_picking_def)
  have deliver: "fst (loop_Ready (loop_picking c) (fst (loop_Add (NewCallTask fn args) (loop c)))
             (snd (loop_Add (NewCallTask fn args) (loop c))) (VM c)) = Some (Threw x)"
    using assms(2,3) by (simp add: loop_Ready_def loop_Add_def NewCallTask_def Let_def)
  have same: "CallAsync c fn args = CallAsync c (\<lambda>a u. (Returned y, snd (fn a u))) args"
    using assms(2) by (simp add: CallAsync_picking)
  have pick: "loop_picking (snd (CallAsync c fn args))"
    using assms(2) CallAsync_fields[of c fn args] by (simp add: loop_picking_def)
  then have again: "fst (CallAsync (snd (CallAsync c fn args)) fn2 args2) = Some ()"
    by (simp add: CallAsync_picking)
  from deliver same pick again open_still CallAsync_fields[of c fn args] assms(2)
  show ?thesis by (simp add: CallAsync_picking)
qed

text \<open>A fresh cell, a function that throws, and a second call after it.\<close>

theorem CallAsync_drops_script_exception_witness:
  "loop_picking cell1
   \<and> fn_throws [] (VM cell1) = (Threw ''TypeError'', VM cell1)
   \<and> CallAsync cell1 fn_throws [] =
       (Some (), cell1\<lparr>loop := \<lparr>next_id = 1, tasks = [], finished = [0]\<rparr>\<rparr>)
   \<and> CallAsync cell1 fn_throws [] = CallAsync cell1 (\<lambda>a u. (Returned ''ok'', snd (fn_throws a u))) []
   \<and> CallAsync (snd (CallAsync cell1 fn_throws [])) fn_returns [] =
       (Some (), cell1\<lparr>loop := \<lparr>next_id = 2, tasks = [], finished = [0, 1]\<rparr>\<rparr>)"
proof -
  have h: "cell_after None [] (NewCell timers_ok fetch_ok ''cell-1'', world0) = (cell1, world0)"
    by (simp add: cell1_def)
  have p: "loop_picking cell1" by (simp add: run_simps call_simps)
  have t: "fn_throws [] (VM cell1) = (Threw ''TypeError'', VM cell1)"
    by (simp add: fn_throws_def)
  have c1: "CallAsync cell1 fn_throws [] =
       (Some (), cell1\<lparr>loop := \<lparr>next_id = 1, tasks = [], finished = [0]\<rparr>\<rparr>)"
    by (simp add: run_simps call_simps)
  have c2: "CallAsync (snd (CallAsync cell1 fn_throws [])) fn_returns [] =
       (Some (), cell1\<lparr>loop := \<lparr>next_id = 2, tasks = [], finished = [0, 1]\<rparr>\<rparr>)"
    by (simp add: run_simps call_simps)
  from CallAsync_drops_script_exception[where fn = fn_throws and args = "[]" and y = "''ok''"
      and ?fn2.0 = fn_returns and ?args2.0 = "[]", OF h p t] p t c1 c2
  show ?thesis by blast
qed

end
